theory Spec2Isabelle
  imports Main
begin

section \<open>Data model\<close>

text \<open>
  A Python \<open>str\<close> is a sequence of Unicode code points, and \<open>len\<close>, \<open>strip\<close> and
  \<open>replace\<close> work on code points: a string is modelled as the list of its code points.
  A naive \<open>datetime\<close> has microsecond resolution and a \<open>timedelta\<close> is an exact number
  of microseconds, so an instant is the integer number of microseconds since a fixed
  origin and \<open>now - t\<close> is integer subtraction.
\<close>

type_synonym pystr = "nat list"
type_synonym datetime = int
type_synonym timedelta = int

definition ascii :: "string \<Rightarrow> pystr" where
  "ascii s = map of_char s"

definition seconds :: "int \<Rightarrow> timedelta" where
  "seconds n = n * 1000000"

definition minutes :: "int \<Rightarrow> timedelta" where
  "minutes n = n * 60000000"

text \<open>
  The reasons a request is refused. \<open>check_rate_limit\<close> raises \<open>HTTPException(429)\<close>
  (\<open>RateLimited\<close>); the validators raise \<open>ValueError\<close> with a fixed message each, named
  here by the reason code: \<open>InvalidPhone\<close> is "Numar de telefon invalid",
  \<open>InvalidService\<close> "Serviciu invalid", \<open>InvalidDate\<close> "Format data invalid",
  \<open>InvalidTime\<close> "Format ora invalid", \<open>PastDateTime\<close> "Data si ora nu pot fi in
  trecut", \<open>CaptchaFailed\<close> "Captcha invalid". \<open>InvalidName\<close> and \<open>InvalidEmail\<close> are
  the errors of the declared field types, \<open>MissingField f\<close> the error for an absent
  required field \<open>f\<close>, and \<open>UnparsedDateTime\<close> the \<open>ValueError\<close> of \<open>strptime\<close>
  itself inside \<open>combined_datetime\<close>.
\<close>

datatype verror =
    MissingField pystr
  | InvalidName
  | InvalidPhone
  | InvalidEmail
  | InvalidService
  | InvalidDate
  | InvalidTime
  | PastDateTime
  | CaptchaFailed
  | UnparsedDateTime

datatype http_exception =
    RateLimited
  | BadRequest verror
  | Unprocessable "verror list"

section \<open>Rate limiting (in-memory)\<close>

definition RATE_LIMIT_WINDOW_SHORT :: timedelta where
  "RATE_LIMIT_WINDOW_SHORT = seconds 15"

definition RATE_LIMIT_MAX_SHORT :: nat where
  "RATE_LIMIT_MAX_SHORT = 1"

definition RATE_LIMIT_WINDOW_LONG :: timedelta where
  "RATE_LIMIT_WINDOW_LONG = minutes 5"

definition RATE_LIMIT_MAX_LONG :: nat where
  "RATE_LIMIT_MAX_LONG = 5"

text \<open>The table \<open>_request_log\<close>: a dict from the client's address to its timestamps.\<close>

type_synonym request_log = "pystr \<rightharpoonup> datetime list"

text \<open>\<open>_request_log.get(ip, [])\<close>\<close>

definition get_history :: "request_log \<Rightarrow> pystr \<Rightarrow> datetime list" where
  "get_history lg ip = (case lg ip of None \<Rightarrow> [] | Some h \<Rightarrow> h)"

text \<open>The list comprehension that prunes: \<open>[t for t in history if now - t <= WINDOW_LONG]\<close>.\<close>

definition prune :: "datetime \<Rightarrow> datetime list \<Rightarrow> datetime list" where
  "prune now history = filter (\<lambda>t. now - t \<le> RATE_LIMIT_WINDOW_LONG) history"

definition short_count :: "datetime \<Rightarrow> datetime list \<Rightarrow> nat" where
  "short_count now history =
     length (filter (\<lambda>t. now - t \<le> RATE_LIMIT_WINDOW_SHORT) history)"

text \<open>
  \<open>check_rate_limit\<close> reads the clock once (\<open>now\<close>, a parameter here), stores the pruned
  history before it decides, and appends \<open>now\<close> only when it does not raise. The result
  is the exception or \<open>()\<close>, together with the table as the call leaves it.
\<close>

definition check_rate_limit ::
  "pystr \<Rightarrow> datetime \<Rightarrow> request_log \<Rightarrow> (http_exception + unit) \<times> request_log" where
  "check_rate_limit ip now lg =
     (let history = prune now (get_history lg ip);
          lg1 = lg(ip \<mapsto> history);
          sc = short_count now history;
          long_count = length history
      in if sc \<ge> RATE_LIMIT_MAX_SHORT \<or> long_count \<ge> RATE_LIMIT_MAX_LONG
         then (Inl RateLimited, lg1)
         else (Inr (), lg1(ip \<mapsto> history @ [now])))"

text \<open>
  A sequence of calls, each with the address and the clock value it reads: the outcomes
  in order and the table after the last call.
\<close>

fun run :: "(pystr \<times> datetime) list \<Rightarrow> request_log \<Rightarrow>
    (http_exception + unit) list \<times> request_log" where
  "run [] lg = ([], lg)"
| "run ((ip, now) # cs) lg =
     (let (r, lg1) = check_rate_limit ip now lg;
          (rs, lg2) = run cs lg1
      in (r # rs, lg2))"

text \<open>The calls of one client at the given clock values.\<close>

definition calls_of :: "pystr \<Rightarrow> datetime list \<Rightarrow> (pystr \<times> datetime) list" where
  "calls_of ip ts = map (\<lambda>t. (ip, t)) ts"

definition admitted :: "(http_exception + unit) \<Rightarrow> bool" where
  "admitted r = (r = Inr ())"

definition rejected :: "(http_exception + unit) \<Rightarrow> bool" where
  "rejected r = (r = Inl RateLimited)"

text \<open>The module starts with \<open>_request_log = {}\<close>.\<close>

definition initial_log :: request_log where
  "initial_log = Map.empty"

text \<open>The outcomes \<open>rs\<close> of the calls \<open>cs\<close> that belong to the client \<open>ip\<close>, in order.\<close>

definition outcomes_for ::
  "pystr \<Rightarrow> (pystr \<times> datetime) list \<Rightarrow> (http_exception + unit) list \<Rightarrow>
     (http_exception + unit) list" where
  "outcomes_for ip cs rs = map snd (filter (\<lambda>(c, r). fst c = ip) (zip cs rs))"

text \<open>The clock values of the calls of the client \<open>ip\<close> among \<open>cs\<close>, in order.\<close>

definition times_for :: "pystr \<Rightarrow> (pystr \<times> datetime) list \<Rightarrow> datetime list" where
  "times_for ip cs = map snd (filter (\<lambda>c. fst c = ip) cs)"

section \<open>Strings\<close>

text \<open>
  The characters \<open>str.strip()\<close> removes at both ends are those \<open>str.isspace\<close> accepts:
  U+0009..U+000D, U+001C..U+0020, U+0085, U+00A0, U+1680, U+2000..U+200A, U+2028, U+2029,
  U+202F, U+205F and U+3000.
\<close>

definition isspace :: "nat \<Rightarrow> bool" where
  "isspace c = ((9 \<le> c \<and> c \<le> 13) \<or> (28 \<le> c \<and> c \<le> 32) \<or> c = 133 \<or> c = 160
     \<or> c = 5760 \<or> (8192 \<le> c \<and> c \<le> 8202) \<or> c = 8232 \<or> c = 8233 \<or> c = 8239
     \<or> c = 8287 \<or> c = 12288)"

definition lstrip :: "pystr \<Rightarrow> pystr" where
  "lstrip s = dropWhile isspace s"

definition rstrip :: "pystr \<Rightarrow> pystr" where
  "rstrip s = rev (dropWhile isspace (rev s))"

definition strip :: "pystr \<Rightarrow> pystr" where
  "strip s = rstrip (lstrip s)"

text \<open>\<open>v.replace(" ", "")\<close>: every occurrence of the one character U+0020 is removed.\<close>

definition replace_space :: "pystr \<Rightarrow> pystr" where
  "replace_space s = filter (\<lambda>c. c \<noteq> 32) s"

section \<open>Models and validation\<close>

text \<open>
  What the program takes from its libraries and does not define: \<open>datetime.strptime\<close>
  (\<open>None\<close> for its \<open>ValueError\<close>), the validation of the \<open>EmailStr\<close> type (\<open>None\<close> when
  the address is refused, else the address as the type keeps it) and \<open>str.lower\<close>.
  Every definition below takes them as a parameter, so every theorem holds whatever
  they compute.
\<close>

record pylib =
  strptime :: "pystr \<Rightarrow> pystr \<Rightarrow> datetime option"
  email_str :: "pystr \<Rightarrow> pystr option"
  str_lower :: "pystr \<Rightarrow> pystr"

definition ALLOWED_SERVICES :: "pystr set" where
  "ALLOWED_SERVICES = {ascii ''tuns'', ascii ''aranjat barba'', ascii ''pachet complet''}"

text \<open>
  \<open>PHONE_REGEX = ^[+]?([0-9]{8,15})$\<close>, applied with \<open>match\<close>: an optional \<open>+\<close> (U+002B),
  then the longest run of the digits U+0030..U+0039, which must have 8 to 15 of them, then
  \<open>$\<close>, which in Python holds at the end of the string and also just before a line feed
  that ends the string.
\<close>

definition is_digit :: "nat \<Rightarrow> bool" where
  "is_digit c = (48 \<le> c \<and> c \<le> 57)"

fun opt_plus :: "pystr \<Rightarrow> pystr" where
  "opt_plus [] = []"
| "opt_plus (c # r) = (if c = 43 then r else c # r)"

definition PHONE_REGEX_match :: "pystr \<Rightarrow> bool" where
  "PHONE_REGEX_match s =
     (let r = opt_plus s;
          ds = takeWhile is_digit r;
          rest = dropWhile is_digit r
      in 8 \<le> length ds \<and> length ds \<le> 15 \<and> (rest = [] \<or> rest = [10]))"

text \<open>
  The pattern in the specification's words, for comparison with \<open>PHONE_REGEX_match\<close>:
  an optional leading \<open>+\<close>, then 8 to 15 digits, nothing else.
\<close>

definition spec_phone_pattern :: "pystr \<Rightarrow> bool" where
  "spec_phone_pattern s =
     (let ds = opt_plus s in 8 \<le> length ds \<and> length ds \<le> 15 \<and> list_all is_digit ds)"

text \<open>The body of a request as it arrives: a field may be absent.\<close>

record raw_request =
  raw_full_name :: "pystr option"
  raw_phone :: "pystr option"
  raw_email :: "pystr option"
  raw_service :: "pystr option"
  raw_date :: "pystr option"
  raw_time :: "pystr option"
  raw_message :: "pystr option"
  raw_captcha_a :: "int option"
  raw_captcha_b :: "int option"
  raw_captcha_result :: "int option"

text \<open>The class \<open>AppointmentRequest\<close>: the validated fields.\<close>

record appointment_request =
  full_name :: pystr
  phone :: pystr
  email :: "pystr option"
  service :: pystr
  date :: pystr
  time :: pystr
  message :: "pystr option"
  captcha_a :: int
  captcha_b :: int
  captcha_result :: int

text \<open>\<open>full_name: str = Field(min_length=2)\<close>: the length of the value as it is.\<close>

definition check_full_name :: "pystr \<Rightarrow> verror + pystr" where
  "check_full_name v = (if 2 \<le> length v then Inr v else Inl InvalidName)"

definition validate_phone :: "pystr \<Rightarrow> verror + pystr" where
  "validate_phone v0 =
     (let v = replace_space (strip v0)
      in if \<not> PHONE_REGEX_match v then Inl InvalidPhone else Inr v)"

definition check_email :: "pylib \<Rightarrow> pystr \<Rightarrow> verror + pystr" where
  "check_email lib v = (case email_str lib v of None \<Rightarrow> Inl InvalidEmail | Some e \<Rightarrow> Inr e)"

definition validate_service :: "pylib \<Rightarrow> pystr \<Rightarrow> verror + pystr" where
  "validate_service lib v =
     (let v_norm = str_lower lib (strip v)
      in if v_norm \<notin> ALLOWED_SERVICES then Inl InvalidService else Inr v_norm)"

definition validate_date :: "pylib \<Rightarrow> pystr \<Rightarrow> verror + pystr" where
  "validate_date lib v =
     (case strptime lib v (ascii ''%Y-%m-%d'') of None \<Rightarrow> Inl InvalidDate | Some _ \<Rightarrow> Inr v)"

definition validate_time :: "pylib \<Rightarrow> pystr \<Rightarrow> verror + pystr" where
  "validate_time lib v =
     (case strptime lib v (ascii ''%H:%M'') of None \<Rightarrow> Inl InvalidTime | Some _ \<Rightarrow> Inr v)"

definition combined_datetime :: "pylib \<Rightarrow> appointment_request \<Rightarrow> datetime option" where
  "combined_datetime lib p =
     strptime lib (date p @ ascii '' '' @ time p) (ascii ''%Y-%m-%d %H:%M'')"

text \<open>\<open>validate_future\<close> reads the clock itself: \<open>now\<close> is that reading.\<close>

definition validate_future :: "pylib \<Rightarrow> datetime \<Rightarrow> appointment_request \<Rightarrow> verror + unit" where
  "validate_future lib now p =
     (case combined_datetime lib p of
        None \<Rightarrow> Inl UnparsedDateTime
      | Some dt \<Rightarrow> if dt \<le> now then Inl PastDateTime else Inr ())"

definition validate_captcha :: "appointment_request \<Rightarrow> verror + unit" where
  "validate_captcha p =
     (if captcha_a p + captcha_b p \<noteq> captcha_result p then Inl CaptchaFailed else Inr ())"

text \<open>
  Building an \<open>AppointmentRequest\<close> from the body is the work of the base class
  \<open>BaseModel\<close>: it goes through the declared fields in their order, a required field that
  is absent gives a "missing" error, a present one is checked by its type, its constraint
  and its \<open>field_validator\<close>, an absent optional field takes its default \<open>None\<close>; the
  errors of all fields are collected and raised together as one validation error, which
  the framework answers with status 422 and the whole list. The body's values are taken
  to have the declared types.
\<close>

definition required :: "pystr \<Rightarrow> 'a option \<Rightarrow> ('a \<Rightarrow> verror + 'b) \<Rightarrow> verror + 'b" where
  "required name v check = (case v of None \<Rightarrow> Inl (MissingField name) | Some x \<Rightarrow> check x)"

definition optional :: "'a option \<Rightarrow> ('a \<Rightarrow> verror + 'b) \<Rightarrow> verror + 'b option" where
  "optional v check =
     (case v of None \<Rightarrow> Inr None
      | Some x \<Rightarrow> (case check x of Inl e \<Rightarrow> Inl e | Inr y \<Rightarrow> Inr (Some y)))"

definition errors_of :: "verror + 'a \<Rightarrow> verror list" where
  "errors_of r = (case r of Inl e \<Rightarrow> [e] | Inr _ \<Rightarrow> [])"

definition field_errors :: "pylib \<Rightarrow> raw_request \<Rightarrow> verror list" where
  "field_errors lib raw =
     errors_of (required (ascii ''full_name'') (raw_full_name raw) check_full_name)
     @ errors_of (required (ascii ''phone'') (raw_phone raw) validate_phone)
     @ errors_of (optional (raw_email raw) (check_email lib))
     @ errors_of (required (ascii ''service'') (raw_service raw) (validate_service lib))
     @ errors_of (required (ascii ''date'') (raw_date raw) (validate_date lib))
     @ errors_of (required (ascii ''time'') (raw_time raw) (validate_time lib))
     @ errors_of (optional (raw_message raw) Inr)
     @ errors_of (required (ascii ''captcha_a'') (raw_captcha_a raw) Inr)
     @ errors_of (required (ascii ''captcha_b'') (raw_captcha_b raw) Inr)
     @ errors_of (required (ascii ''captcha_result'') (raw_captcha_result raw) Inr)"



section \<open>Routes\<close>

text \<open>
  The \<open>try\<close> block of \<open>create_appointment\<close>: \<open>validate_future\<close>, then
  \<open>validate_captcha\<close>; the first \<open>ValueError\<close> leaves the block.
\<close>

definition extra_validations :: "pylib \<Rightarrow> datetime \<Rightarrow> appointment_request \<Rightarrow> verror + unit" where
  "extra_validations lib now p =
     (case validate_future lib now p of Inl e \<Rightarrow> Inl e | Inr _ \<Rightarrow> validate_captcha p)"


section \<open>The decision of one call\<close>

lemma check_rate_limit_result:
  "fst (check_rate_limit ip now lg) =
     (if 1 \<le> short_count now (prune now (get_history lg ip))
         \<or> 5 \<le> length (prune now (get_history lg ip))
      then Inl RateLimited else Inr ())"
  by (simp add: check_rate_limit_def Let_def RATE_LIMIT_MAX_SHORT_def RATE_LIMIT_MAX_LONG_def)

lemma check_rate_limit_log:
  "snd (check_rate_limit ip now lg) =
     (if 1 \<le> short_count now (prune now (get_history lg ip))
         \<or> 5 \<le> length (prune now (get_history lg ip))
      then lg(ip \<mapsto> prune now (get_history lg ip))
      else lg(ip \<mapsto> prune now (get_history lg ip) @ [now]))"
  by (simp add: check_rate_limit_def Let_def RATE_LIMIT_MAX_SHORT_def RATE_LIMIT_MAX_LONG_def)

lemma get_history_upd [simp]: "get_history (lg(ip \<mapsto> h)) ip = h"
  by (simp add: get_history_def)

lemma get_history_upd_other [simp]:
  "ip' \<noteq> ip \<Longrightarrow> get_history (lg(ip \<mapsto> h)) ip' = get_history lg ip'"
  by (simp add: get_history_def)

lemma get_history_initial [simp]: "get_history initial_log ip = []"
  by (simp add: get_history_def initial_log_def)

lemma history_after_call:
  "get_history (snd (check_rate_limit ip now lg)) ip =
     (if rejected (fst (check_rate_limit ip now lg)) then prune now (get_history lg ip)
      else prune now (get_history lg ip) @ [now])"
  by (simp add: check_rate_limit_result check_rate_limit_log rejected_def)

lemma history_after_call_other:
  "ip' \<noteq> ip \<Longrightarrow> get_history (snd (check_rate_limit ip now lg)) ip' = get_history lg ip'"
  by (simp add: check_rate_limit_log)

lemma admitted_iff_not_rejected:
  "admitted (fst (check_rate_limit ip now lg)) \<longleftrightarrow>
     \<not> rejected (fst (check_rate_limit ip now lg))"
  by (simp add: check_rate_limit_result admitted_def rejected_def)

lemmas limiter_defs = check_rate_limit_result check_rate_limit_log rejected_def admitted_def
  short_count_def prune_def RATE_LIMIT_WINDOW_SHORT_def RATE_LIMIT_WINDOW_LONG_def
  seconds_def minutes_def calls_of_def


section \<open>Sequences of calls\<close>

lemma run_Cons_fst:
  "fst (run ((ip, now) # cs) lg) =
     fst (check_rate_limit ip now lg) # fst (run cs (snd (check_rate_limit ip now lg)))"
  by (simp add: split_beta Let_def)

lemma run_Cons_snd:
  "snd (run ((ip, now) # cs) lg) = snd (run cs (snd (check_rate_limit ip now lg)))"
  by (simp add: split_beta Let_def)

declare run.simps(2) [simp del]
declare run_Cons_fst [simp] run_Cons_snd [simp]

lemma run_append_snd: "snd (run (cs @ ds) lg) = snd (run ds (snd (run cs lg)))"
  by (induction cs arbitrary: lg) auto

lemma run_append_fst:
  "fst (run (cs @ ds) lg) = fst (run cs lg) @ fst (run ds (snd (run cs lg)))"
  by (induction cs arbitrary: lg) auto

lemma length_run: "length (fst (run cs lg)) = length cs"
  by (induction cs arbitrary: lg) auto

section \<open>The two thresholds\<close>







lemma retained_at_long_boundary:
  "t \<in> set (get_history lg ip) \<and> now - t = minutes 5 \<longrightarrow>
     t \<in> set (prune now (get_history lg ip))
     \<and> t \<in> set (get_history (snd (check_rate_limit ip now lg)) ip)"
  by (simp add: history_after_call) (simp add: prune_def RATE_LIMIT_WINDOW_LONG_def)

lemma five_with_oldest_at_boundary:
  "get_history lg ip = [t, a, b, c, d] \<and> now - t = minutes 5
     \<and> list_all (\<lambda>x. seconds 15 < now - x \<and> now - x \<le> minutes 5) [a, b, c, d] \<longrightarrow>
   rejected (fst (check_rate_limit ip now lg))
   \<and> admitted (fst (check_rate_limit ip (now + 1) lg))"
  by (simp add: limiter_defs)

text \<open>
  Claim C10. Both comparisons include their boundary. With one stored timestamp \<open>t\<close>, a
  call at exactly \<open>t\<close> plus 15 seconds is rejected (one microsecond later it is
  admitted). A stored timestamp that is exactly 5 minutes old is kept by the pruning and
  is in the history the call leaves; it counts: with five stored timestamps, the oldest
  exactly 5 minutes old and the others older than 15 seconds, the call is rejected, and
  one microsecond later, when the oldest is pruned, it is admitted.
\<close>

theorem window_boundaries_inclusive:
  "(get_history lg ip = [t] \<and> now = t + seconds 15 \<longrightarrow>
      rejected (fst (check_rate_limit ip now lg)))
   \<and> (get_history lg ip = [t] \<and> now = t + seconds 15 + 1 \<longrightarrow>
      admitted (fst (check_rate_limit ip now lg)))
   \<and> (t \<in> set (get_history lg ip) \<and> now - t = minutes 5 \<longrightarrow>
      t \<in> set (prune now (get_history lg ip))
      \<and> t \<in> set (get_history (snd (check_rate_limit ip now lg)) ip))
   \<and> (get_history lg ip = [t, a, b, c, d] \<and> now - t = minutes 5
       \<and> list_all (\<lambda>x. seconds 15 < now - x \<and> now - x \<le> minutes 5) [a, b, c, d] \<longrightarrow>
      rejected (fst (check_rate_limit ip now lg))
      \<and> admitted (fst (check_rate_limit ip (now + 1) lg)))"
proof -
  have 1: "get_history lg ip = [t] \<and> now = t + seconds 15 \<longrightarrow>
      rejected (fst (check_rate_limit ip now lg))"
    by (simp add: limiter_defs)
  have 2: "get_history lg ip = [t] \<and> now = t + seconds 15 + 1 \<longrightarrow>
      admitted (fst (check_rate_limit ip now lg))"
    by (simp add: limiter_defs)
  show ?thesis
    using 1 2 retained_at_long_boundary [of t lg ip now]
      five_with_oldest_at_boundary [of lg ip t a b c d now]
    by blast
qed

theorem window_boundaries_inclusive_witness:
  "(get_history (initial_log([49] \<mapsto> [seconds 2])) [49] = [seconds 2]
      \<and> seconds 17 = seconds 2 + seconds 15)
   \<and> rejected (fst (check_rate_limit [49] (seconds 17) (initial_log([49] \<mapsto> [seconds 2]))))"
proof -
  have "get_history (initial_log([49] \<mapsto> [seconds 2])) [49] = [seconds 2]
      \<and> seconds 17 = seconds 2 + seconds 15"
    by (simp add: seconds_def)
  then show ?thesis
    using window_boundaries_inclusive [of "initial_log([49] \<mapsto> [seconds 2])" "[49]"
        "seconds 2" "seconds 17"]
    by blast
qed

section \<open>The stored histories\<close>

lemma length_prune: "length (prune now h) \<le> length h"
  by (simp add: prune_def)

lemma bounded_step:
  assumes "\<forall>c. length (get_history lg c) \<le> 5"
  shows "length (get_history (snd (check_rate_limit ip now lg)) c) \<le> 5"
proof (cases "c = ip")
  case True
  have "length (prune now (get_history lg ip)) \<le> 5"
    using assms length_prune [of now "get_history lg ip"] by (meson le_trans)
  then show ?thesis
    using True by (simp add: check_rate_limit_log)
next
  case False
  then show ?thesis using assms by (simp add: history_after_call_other)
qed

lemma bounded_run:
  "\<forall>c. length (get_history lg c) \<le> 5 \<Longrightarrow> length (get_history (snd (run cs lg)) c) \<le> 5"
proof (induction cs arbitrary: lg)
  case Nil
  then show ?case by simp
next
  case (Cons a cs)
  obtain ip now where a: "a = (ip, now)" by (cases a)
  have "\<forall>c. length (get_history (snd (check_rate_limit ip now lg)) c) \<le> 5"
    using Cons.prems bounded_step by blast
  from Cons.IH [OF this] show ?case by (simp add: a)
qed

text \<open>
  Claim C8. The table starts empty. After any sequence of calls \<open>cs\<close> and one more call
  of the client \<open>ip\<close> at \<open>now\<close>, admitted or rejected, the client has a stored history
  \<open>h\<close>; every timestamp \<open>t\<close> in it has \<open>now - t\<close> at most 5 minutes; \<open>h\<close> has at most 5
  entries; on rejection \<open>h\<close> is the pruned earlier history; and when no stored timestamp
  lay after \<open>now\<close>, every timestamp of \<open>h\<close> lies between \<open>now\<close> minus 5 minutes and
  \<open>now\<close>.
\<close>

theorem stored_history_invariant:
  "let lg = snd (run cs initial_log);
       lg' = snd (check_rate_limit ip now lg);
       h = get_history lg' ip
   in lg' ip = Some h
      \<and> (\<forall>t \<in> set h. now - t \<le> minutes 5)
      \<and> length h \<le> 5
      \<and> (rejected (fst (check_rate_limit ip now lg)) \<longrightarrow> h = prune now (get_history lg ip))
      \<and> ((\<forall>t \<in> set (get_history lg ip). t \<le> now) \<longrightarrow>
           (\<forall>t \<in> set h. now - minutes 5 \<le> t \<and> t \<le> now))"
proof -
  define lg where "lg = snd (run cs initial_log)"
  define lg' where "lg' = snd (check_rate_limit ip now lg)"
  define h where "h = get_history lg' ip"
  have b: "\<forall>c. length (get_history lg c) \<le> 5"
    unfolding lg_def by (intro allI bounded_run) simp
  have 1: "lg' ip = Some h"
    by (simp add: h_def lg'_def check_rate_limit_log get_history_def)
  have h: "h = (if rejected (fst (check_rate_limit ip now lg))
      then prune now (get_history lg ip) else prune now (get_history lg ip) @ [now])"
    unfolding h_def lg'_def by (rule history_after_call)
  have 2: "\<forall>t \<in> set h. now - t \<le> minutes 5"
    by (auto simp: h prune_def RATE_LIMIT_WINDOW_LONG_def minutes_def)
  have 3: "length h \<le> 5"
    unfolding h_def lg'_def using b bounded_step by blast
  have 4: "rejected (fst (check_rate_limit ip now lg)) \<longrightarrow> h = prune now (get_history lg ip)"
    by (simp add: h)
  have 5: "(\<forall>t \<in> set (get_history lg ip). t \<le> now) \<longrightarrow>
           (\<forall>t \<in> set h. now - minutes 5 \<le> t \<and> t \<le> now)"
    by (auto simp: h prune_def RATE_LIMIT_WINDOW_LONG_def minutes_def)
  show ?thesis
    using 1 2 3 4 5
    unfolding Let_def lg_def [symmetric] lg'_def [symmetric] h_def [symmetric]
    by blast
qed

theorem stored_history_invariant_witness:
  "(rejected (fst (check_rate_limit [49] (seconds 8)
        (snd (run (calls_of [49] [seconds 1]) initial_log))))
    \<and> list_all (\<lambda>t. t \<le> seconds 8)
         (get_history (snd (run (calls_of [49] [seconds 1]) initial_log)) [49]))
   \<and> length (get_history (snd (check_rate_limit [49] (seconds 8)
        (snd (run (calls_of [49] [seconds 1]) initial_log)))) [49]) \<le> 5
   \<and> get_history (snd (check_rate_limit [49] (seconds 8)
        (snd (run (calls_of [49] [seconds 1]) initial_log)))) [49]
      = prune (seconds 8) (get_history (snd (run (calls_of [49] [seconds 1]) initial_log)) [49])
   \<and> list_all (\<lambda>t. seconds 8 - minutes 5 \<le> t \<and> t \<le> seconds 8)
        (get_history (snd (check_rate_limit [49] (seconds 8)
          (snd (run (calls_of [49] [seconds 1]) initial_log)))) [49])"
proof -
  have "rejected (fst (check_rate_limit [49] (seconds 8)
        (snd (run (calls_of [49] [seconds 1]) initial_log))))
    \<and> list_all (\<lambda>t. t \<le> seconds 8)
         (get_history (snd (run (calls_of [49] [seconds 1]) initial_log)) [49])"
    by (simp add: limiter_defs)
  then show ?thesis
    using stored_history_invariant [of "calls_of [49] [seconds 1]" "[49]" "seconds 8"]
    unfolding Let_def list_all_iff by blast
qed

section \<open>Well-spaced clients\<close>

lemma outcomes_for_Nil [simp]: "outcomes_for ip [] rs = []"
  by (simp add: outcomes_for_def)

lemma outcomes_for_Cons [simp]:
  "outcomes_for ip ((ip', now) # cs) (r # rs) =
     (if ip' = ip then r # outcomes_for ip cs rs else outcomes_for ip cs rs)"
  by (simp add: outcomes_for_def)

lemma times_for_Nil [simp]: "times_for ip [] = []"
  by (simp add: times_for_def)

lemma times_for_Cons [simp]:
  "times_for ip ((ip', now) # cs) =
     (if ip' = ip then now # times_for ip cs else times_for ip cs)"
  by (simp add: times_for_def)

lemma length_outcomes_for:
  "length (outcomes_for ip cs (fst (run cs lg))) = length (times_for ip cs)"
  by (induction cs arbitrary: lg) auto

lemma length_filter_conj_le:
  "length (filter (\<lambda>x. P x \<and> Q x) xs) \<le> length (filter Q xs)"
  by (induction xs) auto

lemma admitted_when_spaced:
  assumes s: "\<forall>x \<in> set h. now - x > seconds 15"
      and w: "length (filter (\<lambda>t. now - minutes 5 \<le> t \<and> t \<le> now - minutes 5 + minutes 5) (h @ [now])) \<le> 5"
      and h: "get_history lg ip = h"
  shows "admitted (fst (check_rate_limit ip now lg))"
proof -
  have sc: "short_count now (prune now h) = 0"
    using s by (auto simp: short_count_def prune_def RATE_LIMIT_WINDOW_SHORT_def filter_empty_conv)
  have "filter (\<lambda>t. now - minutes 5 \<le> t \<and> t \<le> now - minutes 5 + minutes 5) h = prune now h"
    unfolding prune_def using s
    by (intro filter_cong) (auto simp: RATE_LIMIT_WINDOW_LONG_def seconds_def)
  then have "length (prune now h) + 1 \<le> 5"
    using w by (simp add: minutes_def)
  then show ?thesis
    using sc by (simp add: check_rate_limit_result admitted_def h)
qed

lemma spaced_all_admitted:
  assumes "sorted_wrt (\<lambda>a b. b - a > seconds 15) (get_history lg ip @ times_for ip cs)"
      and "\<forall>a. length (filter (\<lambda>t. a \<le> t \<and> t \<le> a + minutes 5)
                 (get_history lg ip @ times_for ip cs)) \<le> 5"
  shows "list_all admitted (outcomes_for ip cs (fst (run cs lg)))"
  using assms
proof (induction cs arbitrary: lg)
  case Nil
  then show ?case by simp
next
  case (Cons c cs)
  obtain ip' now where c: "c = (ip', now)" by (cases c)
  let ?lg = "snd (check_rate_limit ip' now lg)"
  show ?case
  proof (cases "ip' = ip")
    case False
    then have "get_history ?lg ip = get_history lg ip"
      by (simp add: history_after_call_other)
    with Cons.prems False c have "list_all admitted (outcomes_for ip cs (fst (run cs ?lg)))"
      by (intro Cons.IH) auto
    with False c show ?thesis by simp
  next
    case True
    let ?h = "get_history lg ip"
    have srt: "sorted_wrt (\<lambda>a b. b - a > seconds 15) (?h @ now # times_for ip cs)"
      using Cons.prems(1) True c by simp
    have win: "\<forall>a. length (filter (\<lambda>t. a \<le> t \<and> t \<le> a + minutes 5) (?h @ now # times_for ip cs)) \<le> 5"
      using Cons.prems(2) True c by simp
    have s: "\<forall>x \<in> set ?h. now - x > seconds 15"
      using srt by (auto simp: sorted_wrt_append)
    have "length (filter (\<lambda>t. now - minutes 5 \<le> t \<and> t \<le> now - minutes 5 + minutes 5) (?h @ [now]))
          \<le> length (filter (\<lambda>t. now - minutes 5 \<le> t \<and> t \<le> now - minutes 5 + minutes 5) (?h @ now # times_for ip cs))"
      by simp
    also have "\<dots> \<le> 5" using win by blast
    finally have adm: "admitted (fst (check_rate_limit ip now lg))"
      using s by (intro admitted_when_spaced [where h = ?h]) auto
    then have hist: "get_history ?lg ip = prune now ?h @ [now]"
      using True by (simp add: history_after_call admitted_iff_not_rejected)
    have srt': "sorted_wrt (\<lambda>a b. b - a > seconds 15) (get_history ?lg ip @ times_for ip cs)"
      using srt unfolding hist prune_def
      by (auto simp: sorted_wrt_append sorted_wrt_filter)
    have win': "\<forall>a. length (filter (\<lambda>t. a \<le> t \<and> t \<le> a + minutes 5)
                 (get_history ?lg ip @ times_for ip cs)) \<le> 5"
    proof
      fix a
      have "length (filter (\<lambda>t. a \<le> t \<and> t \<le> a + minutes 5) (prune now ?h))
            \<le> length (filter (\<lambda>t. a \<le> t \<and> t \<le> a + minutes 5) ?h)"
        unfolding prune_def by (simp add: conj_commute length_filter_conj_le)
      then have "length (filter (\<lambda>t. a \<le> t \<and> t \<le> a + minutes 5) (get_history ?lg ip @ times_for ip cs))
        \<le> length (filter (\<lambda>t. a \<le> t \<and> t \<le> a + minutes 5) (?h @ now # times_for ip cs))"
        unfolding hist by simp
      with win show "length (filter (\<lambda>t. a \<le> t \<and> t \<le> a + minutes 5)
                 (get_history ?lg ip @ times_for ip cs)) \<le> 5"
        using le_trans by blast
    qed
    have "list_all admitted (outcomes_for ip cs (fst (run cs ?lg)))"
      using srt' win' by (rule Cons.IH)
    with adm True c show ?thesis by simp
  qed
qed

lemma transp_spaced: "transp (\<lambda>a b :: int. b - a > seconds 15)"
  by (auto simp: transp_def seconds_def)

text \<open>
  Claim C7. Calls of any clients in any order; \<open>times_for ip cs\<close> are the clock values of
  the calls of the client \<open>ip\<close>, which has no history at the start. When each of them is
  strictly more than 15 seconds after the one before, and no interval of 5 minutes (both
  ends included, as the comparisons of the code are) holds more than 5 of them, every call
  of the client is admitted, and there is one outcome for each of its calls.
\<close>

theorem spaced_requests_all_admitted:
  assumes "get_history lg ip = []"
      and "successively (\<lambda>a b. b - a > seconds 15) (times_for ip cs)"
      and "\<forall>a. length (filter (\<lambda>t. a \<le> t \<and> t \<le> a + minutes 5) (times_for ip cs)) \<le> 5"
  shows "list_all admitted (outcomes_for ip cs (fst (run cs lg)))
         \<and> length (outcomes_for ip cs (fst (run cs lg))) = length (times_for ip cs)"
proof -
  have "sorted_wrt (\<lambda>a b. b - a > seconds 15) (times_for ip cs)"
    using assms(2) successively_conv_sorted_wrt [OF transp_spaced] by blast
  then have "list_all admitted (outcomes_for ip cs (fst (run cs lg)))"
    using assms(1,3) by (intro spaced_all_admitted) simp_all
  then show ?thesis
    by (simp add: length_outcomes_for)
qed

theorem spaced_requests_all_admitted_witness:
  "(get_history initial_log [49] = []
    \<and> successively (\<lambda>a b. b - a > seconds 15)
        (times_for [49] [([49], seconds 1), ([50], seconds 2), ([49], seconds 17), ([49], seconds 90)])
    \<and> (\<forall>a. length (filter (\<lambda>t. a \<le> t \<and> t \<le> a + minutes 5)
        (times_for [49] [([49], seconds 1), ([50], seconds 2), ([49], seconds 17), ([49], seconds 90)])) \<le> 5))
   \<and> outcomes_for [49] [([49], seconds 1), ([50], seconds 2), ([49], seconds 17), ([49], seconds 90)]
        (fst (run [([49], seconds 1), ([50], seconds 2), ([49], seconds 17), ([49], seconds 90)] initial_log))
      = [Inr (), Inr (), Inr ()]"
proof -
  let ?cs = "[([49], seconds 1), ([50], seconds 2), ([49], seconds 17), ([49::nat], seconds 90)]"
  have h: "get_history initial_log [49] = []
    \<and> successively (\<lambda>a b. b - a > seconds 15) (times_for [49] ?cs)
    \<and> (\<forall>a. length (filter (\<lambda>t. a \<le> t \<and> t \<le> a + minutes 5) (times_for [49] ?cs)) \<le> 5)"
    by (simp add: seconds_def)
  then have "list_all admitted (outcomes_for [49] ?cs (fst (run ?cs initial_log)))
         \<and> length (outcomes_for [49] ?cs (fst (run ?cs initial_log))) = length (times_for [49] ?cs)"
    using spaced_requests_all_admitted [of initial_log "[49]" ?cs] by blast
  then have "outcomes_for [49] ?cs (fst (run ?cs initial_log)) = [Inr (), Inr (), Inr ()]"
    by (simp add: admitted_def)
  with h show ?thesis by blast
qed

section \<open>Rejected calls\<close>

lemma count_list_filter: "P x \<Longrightarrow> count_list (filter P xs) x = count_list xs x"
  by (induction xs) auto

lemma rejected_keeps_subset:
  "rejected (fst (check_rate_limit ip now lg)) \<Longrightarrow>
     set (get_history (snd (check_rate_limit ip now lg)) ip) \<subseteq> set (get_history lg ip)"
  by (auto simp: history_after_call prune_def)

lemma rejected_run_subset:
  "list_all rejected (outcomes_for ip cs (fst (run cs lg))) \<Longrightarrow>
     set (get_history (snd (run cs lg)) ip) \<subseteq> set (get_history lg ip)"
proof (induction cs arbitrary: lg)
  case Nil
  then show ?case by simp
next
  case (Cons c cs)
  obtain ip' now where c: "c = (ip', now)" by (cases c)
  let ?lg = "snd (check_rate_limit ip' now lg)"
  have rest: "list_all rejected (outcomes_for ip cs (fst (run cs ?lg)))"
    using Cons.prems c by (simp split: if_splits)
  have step: "set (get_history ?lg ip) \<subseteq> set (get_history lg ip)"
  proof (cases "ip' = ip")
    case True
    then have "rejected (fst (check_rate_limit ip now lg))"
      using Cons.prems c by simp
    then show ?thesis using True rejected_keeps_subset by blast
  next
    case False
    then show ?thesis by (simp add: history_after_call_other)
  qed
  from Cons.IH [OF rest] step show ?case
    by (simp add: c)
qed

lemma admitted_after_both_windows:
  assumes "\<forall>t \<in> set (get_history lg ip). now - t > minutes 5"
  shows "admitted (fst (check_rate_limit ip now lg))
         \<and> get_history (snd (check_rate_limit ip now lg)) ip = [now]"
proof -
  have "prune now (get_history lg ip) = []"
    using assms by (auto simp: prune_def RATE_LIMIT_WINDOW_LONG_def filter_empty_conv)
  then show ?thesis
    by (simp add: check_rate_limit_result check_rate_limit_log admitted_def short_count_def)
qed

text \<open>
  Claim C2, as amended. A rejected call leaves the table with the client's pruned
  earlier history and nothing else changed: \<open>now\<close> is not appended, so it occurs in the
  stored history exactly as often as it did before the call (the same instant recorded by
  an earlier admitted call stays). After any sequence of calls in which every call of the
  client is rejected, a call at an instant more than 5 minutes after every timestamp the
  client had stored is admitted, and leaves the history holding this one instant.
\<close>

theorem rejected_call_not_recorded:
  "(rejected (fst (check_rate_limit ip now lg)) \<longrightarrow>
      snd (check_rate_limit ip now lg) = lg(ip \<mapsto> prune now (get_history lg ip))
      \<and> count_list (get_history (snd (check_rate_limit ip now lg)) ip) now
          = count_list (get_history lg ip) now)
   \<and> (list_all rejected (outcomes_for ip cs (fst (run cs lg)))
       \<and> (\<forall>t \<in> set (get_history lg ip). now' - t > minutes 5) \<longrightarrow>
      admitted (fst (check_rate_limit ip now' (snd (run cs lg))))
      \<and> get_history (snd (check_rate_limit ip now' (snd (run cs lg)))) ip = [now'])"
proof -
  have 1: "rejected (fst (check_rate_limit ip now lg)) \<longrightarrow>
      snd (check_rate_limit ip now lg) = lg(ip \<mapsto> prune now (get_history lg ip))"
    by (simp add: check_rate_limit_result check_rate_limit_log rejected_def)
  have 2: "rejected (fst (check_rate_limit ip now lg)) \<longrightarrow>
      count_list (get_history (snd (check_rate_limit ip now lg)) ip) now
          = count_list (get_history lg ip) now"
    by (simp add: history_after_call prune_def count_list_filter RATE_LIMIT_WINDOW_LONG_def minutes_def)
  have 3: "list_all rejected (outcomes_for ip cs (fst (run cs lg)))
       \<and> (\<forall>t \<in> set (get_history lg ip). now' - t > minutes 5) \<longrightarrow>
      admitted (fst (check_rate_limit ip now' (snd (run cs lg))))
      \<and> get_history (snd (check_rate_limit ip now' (snd (run cs lg)))) ip = [now']"
  proof
    assume a: "list_all rejected (outcomes_for ip cs (fst (run cs lg)))
       \<and> (\<forall>t \<in> set (get_history lg ip). now' - t > minutes 5)"
    then have "set (get_history (snd (run cs lg)) ip) \<subseteq> set (get_history lg ip)"
      using rejected_run_subset by blast
    with a have "\<forall>t \<in> set (get_history (snd (run cs lg)) ip). now' - t > minutes 5"
      by blast
    then show "admitted (fst (check_rate_limit ip now' (snd (run cs lg))))
      \<and> get_history (snd (check_rate_limit ip now' (snd (run cs lg)))) ip = [now']"
      by (rule admitted_after_both_windows)
  qed
  show ?thesis using 1 2 3 by blast
qed

text \<open>
  The claim as it was stated fails when the clock gives the same reading twice: the first
  call is admitted and records the instant, the second call at that instant is rejected,
  and the stored history holds a timestamp equal to the second call's \<open>now\<close>.
\<close>

theorem rejected_call_history_counterexample:
  "rejected (fst (check_rate_limit [49] (seconds 1)
      (snd (check_rate_limit [49] (seconds 1) initial_log))))
   \<and> seconds 1 \<in> set (get_history (snd (check_rate_limit [49] (seconds 1)
      (snd (check_rate_limit [49] (seconds 1) initial_log)))) [49])"
  by (simp add: limiter_defs)

theorem rejected_call_not_recorded_witness:
  "(rejected (fst (check_rate_limit [49] (seconds 3) (initial_log([49] \<mapsto> [seconds 1]))))
    \<and> list_all rejected (outcomes_for [49] (calls_of [49] [seconds 3, seconds 5, seconds 9])
        (fst (run (calls_of [49] [seconds 3, seconds 5, seconds 9]) (initial_log([49] \<mapsto> [seconds 1])))))
    \<and> list_all (\<lambda>t. seconds 400 - t > minutes 5) (get_history (initial_log([49] \<mapsto> [seconds 1])) [49]))
   \<and> snd (check_rate_limit [49] (seconds 3) (initial_log([49] \<mapsto> [seconds 1])))
        = (initial_log([49] \<mapsto> [seconds 1]))([49] \<mapsto> prune (seconds 3) (get_history (initial_log([49] \<mapsto> [seconds 1])) [49]))
   \<and> admitted (fst (check_rate_limit [49] (seconds 400)
        (snd (run (calls_of [49] [seconds 3, seconds 5, seconds 9]) (initial_log([49] \<mapsto> [seconds 1]))))))
   \<and> get_history (snd (check_rate_limit [49] (seconds 400)
        (snd (run (calls_of [49] [seconds 3, seconds 5, seconds 9]) (initial_log([49] \<mapsto> [seconds 1])))))) [49]
      = [seconds 400]"
proof -
  have "rejected (fst (check_rate_limit [49] (seconds 3) (initial_log([49] \<mapsto> [seconds 1]))))
    \<and> list_all rejected (outcomes_for [49] (calls_of [49] [seconds 3, seconds 5, seconds 9])
        (fst (run (calls_of [49] [seconds 3, seconds 5, seconds 9]) (initial_log([49] \<mapsto> [seconds 1])))))
    \<and> list_all (\<lambda>t. seconds 400 - t > minutes 5) (get_history (initial_log([49] \<mapsto> [seconds 1])) [49])"
    by (simp add: limiter_defs)
  then show ?thesis
    using rejected_call_not_recorded [of "[49]" "seconds 3" "initial_log([49] \<mapsto> [seconds 1])"
        "calls_of [49] [seconds 3, seconds 5, seconds 9]" "seconds 400"]
    unfolding list_all_iff by blast
qed

section \<open>The phone number\<close>

lemma length_strip_le: "length (strip v) \<le> length v"
proof -
  have "length (strip v) \<le> length (dropWhile isspace v)"
    unfolding strip_def rstrip_def lstrip_def
    using length_dropWhile_le [of isspace "rev (dropWhile isspace v)"] by simp
  also have "\<dots> \<le> length v" by (rule length_dropWhile_le)
  finally show ?thesis .
qed

lemma last_strip_not_space: "strip v \<noteq> [] \<Longrightarrow> \<not> isspace (last (strip v))"
  unfolding strip_def rstrip_def lstrip_def
  by (simp add: last_rev hd_dropWhile)

lemma filter_keep_last_nonempty: "xs \<noteq> [] \<Longrightarrow> P (last xs) \<Longrightarrow> filter P xs \<noteq> []"
  using last_in_set [of xs] by (auto simp: filter_empty_conv)

lemma last_filter_keep: "xs \<noteq> [] \<Longrightarrow> P (last xs) \<Longrightarrow> last (filter P xs) = last xs"
  by (induction xs) (auto simp: filter_keep_last_nonempty split: if_splits)

lemma not_space_32: "\<not> isspace c \<Longrightarrow> c \<noteq> 32"
  by (auto simp: isspace_def)

lemma last_normalised_not_space:
  assumes "replace_space (strip v) \<noteq> []"
  shows "\<not> isspace (last (replace_space (strip v)))"
proof -
  have ne: "strip v \<noteq> []" using assms by (auto simp: replace_space_def)
  then have ns: "\<not> isspace (last (strip v))" by (rule last_strip_not_space)
  then have "last (strip v) \<noteq> 32" by (rule not_space_32)
  then have "last (replace_space (strip v)) = last (strip v)"
    unfolding replace_space_def using ne by (intro last_filter_keep) auto
  with ns show ?thesis by simp
qed

lemma last_opt_plus: "opt_plus s \<noteq> [] \<Longrightarrow> last (opt_plus s) = last s"
  by (cases s) (auto split: if_splits)

lemma opt_plus_Nil: "opt_plus s \<noteq> [] \<Longrightarrow> s \<noteq> []"
  by (cases s) auto

lemma regex_is_pattern:
  assumes "s = [] \<or> \<not> isspace (last s)"
  shows "PHONE_REGEX_match s = spec_phone_pattern s"
proof -
  let ?r = "opt_plus s"
  have no_lf: "dropWhile is_digit ?r \<noteq> [10]"
  proof
    assume a: "dropWhile is_digit ?r = [10]"
    then have "?r = takeWhile is_digit ?r @ [10]"
      by (metis takeWhile_dropWhile_id)
    then have r: "?r \<noteq> [] \<and> last ?r = 10"
      by (metis last_snoc snoc_eq_iff_butlast)
    then have "last s = 10 \<and> s \<noteq> []"
      using last_opt_plus opt_plus_Nil by metis
    moreover have "isspace 10" by (simp add: isspace_def)
    ultimately show False using assms by auto
  qed
  show ?thesis
  proof (cases "list_all is_digit ?r")
    case True
    then have tw: "takeWhile is_digit ?r = ?r" and dw: "dropWhile is_digit ?r = []"
      by (simp_all add: list_all_iff)
    show ?thesis
      unfolding PHONE_REGEX_match_def spec_phone_pattern_def Let_def tw dw
      using True by simp
  next
    case False
    then have "dropWhile is_digit ?r \<noteq> []"
      by (simp add: list_all_iff)
    with False no_lf show ?thesis
      by (simp add: PHONE_REGEX_match_def spec_phone_pattern_def Let_def)
  qed
qed

lemma validate_phone_pattern:
  "validate_phone v =
     (if spec_phone_pattern (replace_space (strip v)) then Inr (replace_space (strip v))
      else Inl InvalidPhone)"
proof -
  have "PHONE_REGEX_match (replace_space (strip v)) = spec_phone_pattern (replace_space (strip v))"
    using last_normalised_not_space [of v] by (intro regex_is_pattern) blast
  then show ?thesis by (simp add: validate_phone_def Let_def)
qed

lemmas string_eval = ascii_def strip_def lstrip_def rstrip_def isspace_def replace_space_def
  PHONE_REGEX_match_def is_digit_def spec_phone_pattern_def

lemma phone_examples:
  "validate_phone (ascii ''+40712345678'') = Inr (ascii ''+40712345678'')
   \<and> validate_phone (ascii ''123'') = Inl InvalidPhone
   \<and> validate_phone (ascii ''0712-345-678'') = Inl InvalidPhone
   \<and> validate_phone (ascii '' 0712 345 678 '') = Inr (ascii ''0712345678'')"
  by (simp add: validate_phone_def string_eval)

text \<open>
  Claim C6, as amended. \<open>validate_phone\<close> removes the whitespace at both ends of the
  value and every space character U+0020 inside it (no other character: a tab or a line
  feed inside the value stays), and then succeeds exactly when what is left is an optional
  leading \<open>+\<close> followed by 8 to 15 digits and nothing else; it returns what is left as
  the normalised phone, and \<open>InvalidPhone\<close> otherwise. \<open>+40712345678\<close> validates,
  \<open>123\<close> and \<open>0712-345-678\<close> fail with \<open>InvalidPhone\<close>, and \<open> 0712 345 678 \<close>
  validates as \<open>0712345678\<close>.
\<close>

theorem phone_normalised_pattern:
  "validate_phone v =
     (if spec_phone_pattern (replace_space (strip v)) then Inr (replace_space (strip v))
      else Inl InvalidPhone)
   \<and> validate_phone (ascii ''+40712345678'') = Inr (ascii ''+40712345678'')
   \<and> validate_phone (ascii ''123'') = Inl InvalidPhone
   \<and> validate_phone (ascii ''0712-345-678'') = Inl InvalidPhone
   \<and> validate_phone (ascii '' 0712 345 678 '') = Inr (ascii ''0712345678'')"
  using validate_phone_pattern [of v] phone_examples by blast

theorem phone_normalised_pattern_witness:
  "spec_phone_pattern (replace_space (strip (ascii '' +40 712 345 678'')))
   \<and> validate_phone (ascii '' +40 712 345 678'') = Inr (ascii ''+40712345678'')"
proof -
  have "spec_phone_pattern (replace_space (strip (ascii '' +40 712 345 678'')))
     \<and> replace_space (strip (ascii '' +40 712 345 678'')) = ascii ''+40712345678''"
    by (simp add: string_eval)
  then show ?thesis
    using phone_normalised_pattern [of "ascii '' +40 712 345 678''"] by (simp add: string_eval)
qed

text \<open>
  The claim as it was stated fails for whitespace other than the space character inside
  the value: with a tab (U+0009) between the digits, removing all whitespace would leave
  ten digits, which fit the pattern, but \<open>validate_phone\<close> keeps the tab and fails.
\<close>

theorem phone_internal_tab_counterexample:
  "validate_phone (ascii ''0712'' @ [9] @ ascii ''345678'') = Inl InvalidPhone
   \<and> isspace 9
   \<and> spec_phone_pattern (filter (\<lambda>c. \<not> isspace c) (ascii ''0712'' @ [9] @ ascii ''345678''))"
  by (simp add: validate_phone_def string_eval)

section \<open>The errors of the fields\<close>

lemma errors_of_Inr [simp]: "errors_of (Inr x) = []"
  by (simp add: errors_of_def)

lemma errors_of_Inl [simp]: "errors_of (Inl e) = [e]"
  by (simp add: errors_of_def)

lemma mem_errors_of: "e \<in> set (errors_of r) \<longleftrightarrow> r = Inl e"
  by (cases r) auto

lemma sorted_errors_of [simp]: "sorted_wrt P (errors_of r)"
  by (cases r) auto

lemma required_Inl:
  "required n v chk = Inl e \<longleftrightarrow>
     (v = None \<and> e = MissingField n) \<or> (\<exists>x. v = Some x \<and> chk x = Inl e)"
  by (cases v) (auto simp: required_def)

lemma optional_Inl: "optional v chk = Inl e \<longleftrightarrow> (\<exists>x. v = Some x \<and> chk x = Inl e)"
  by (cases v) (auto simp: optional_def split: sum.splits)

lemma check_full_name_Inl: "check_full_name v = Inl e \<longleftrightarrow> e = InvalidName \<and> length v < 2"
  by (auto simp: check_full_name_def)

lemma validate_phone_Inl:
  "validate_phone v = Inl e \<longleftrightarrow>
     e = InvalidPhone \<and> \<not> PHONE_REGEX_match (replace_space (strip v))"
  by (auto simp: validate_phone_def Let_def)

lemma check_email_Inl: "check_email lib v = Inl e \<longleftrightarrow> e = InvalidEmail \<and> email_str lib v = None"
  by (auto simp: check_email_def split: option.splits)

lemma validate_service_Inl:
  "validate_service lib v = Inl e \<longleftrightarrow>
     e = InvalidService \<and> str_lower lib (strip v) \<notin> ALLOWED_SERVICES"
  by (auto simp: validate_service_def Let_def)

lemma validate_date_Inl:
  "validate_date lib v = Inl e \<longleftrightarrow>
     e = InvalidDate \<and> strptime lib v (ascii ''%Y-%m-%d'') = None"
  by (auto simp: validate_date_def split: option.splits)

lemma validate_time_Inl:
  "validate_time lib v = Inl e \<longleftrightarrow> e = InvalidTime \<and> strptime lib v (ascii ''%H:%M'') = None"
  by (auto simp: validate_time_def split: option.splits)

lemmas field_Inl = mem_errors_of required_Inl optional_Inl check_full_name_Inl
  validate_phone_Inl check_email_Inl validate_service_Inl validate_date_Inl validate_time_Inl

lemma invalid_name_reported:
  "InvalidName \<in> set (field_errors lib raw) \<longleftrightarrow>
     (\<exists>v. raw_full_name raw = Some v \<and> length v < 2)"
  by (simp add: field_errors_def field_Inl)
















section \<open>The cross-field checks\<close>

lemma validate_future_cases:
  "validate_future lib now p =
     (case combined_datetime lib p of
        None \<Rightarrow> Inl UnparsedDateTime
      | Some dt \<Rightarrow> if now < dt then Inr () else Inl PastDateTime)"
  by (auto simp: validate_future_def split: option.splits)

lemma extra_validations_cases:
  "extra_validations lib now p =
     (case combined_datetime lib p of
        None \<Rightarrow> Inl UnparsedDateTime
      | Some dt \<Rightarrow>
          if dt \<le> now then Inl PastDateTime
          else if captcha_a p + captcha_b p \<noteq> captcha_result p then Inl CaptchaFailed
          else Inr ())"
  by (auto simp: extra_validations_def validate_future_def validate_captcha_def
      split: option.splits)

text \<open>
  Claim C3. With \<open>dt\<close> the combined date and time of the payload and \<open>now\<close> the clock
  reading of the check: if \<open>now < dt\<close> the check passes, and if \<open>dt \<le> now\<close> it fails with
  \<open>PastDateTime\<close>. At \<open>now = dt\<close> it fails; one microsecond earlier it passes, and with
  a right captcha both cross-field checks pass then.
\<close>

theorem future_check_strict:
  "(combined_datetime lib p = Some dt \<and> now < dt \<longrightarrow> validate_future lib now p = Inr ())
   \<and> (combined_datetime lib p = Some dt \<and> dt \<le> now \<longrightarrow>
        validate_future lib now p = Inl PastDateTime)
   \<and> (combined_datetime lib p = Some dt \<longrightarrow>
        validate_future lib dt p = Inl PastDateTime
        \<and> validate_future lib (dt - 1) p = Inr ())
   \<and> (combined_datetime lib p = Some dt \<and> captcha_a p + captcha_b p = captcha_result p \<longrightarrow>
        extra_validations lib dt p = Inl PastDateTime
        \<and> extra_validations lib (dt - 1) p = Inr ())"
  by (simp add: validate_future_cases extra_validations_cases)

theorem future_check_strict_witness:
  "(combined_datetime \<lparr>strptime = \<lambda>s f. Some (seconds 100), email_str = Some, str_lower = id\<rparr>
      \<lparr>full_name = ascii ''Ion Popescu'', phone = ascii ''0712345678'', email = None,
       service = ascii ''tuns'', date = ascii ''2030-01-01'', time = ascii ''14:30'',
       message = None, captcha_a = 2, captcha_b = 2, captcha_result = 4\<rparr> = Some (seconds 100)
    \<and> (2::int) + 2 = 4)
   \<and> validate_future \<lparr>strptime = \<lambda>s f. Some (seconds 100), email_str = Some, str_lower = id\<rparr>
        (seconds 100)
        \<lparr>full_name = ascii ''Ion Popescu'', phone = ascii ''0712345678'', email = None,
         service = ascii ''tuns'', date = ascii ''2030-01-01'', time = ascii ''14:30'',
         message = None, captcha_a = 2, captcha_b = 2, captcha_result = 4\<rparr> = Inl PastDateTime
   \<and> validate_future \<lparr>strptime = \<lambda>s f. Some (seconds 100), email_str = Some, str_lower = id\<rparr>
        (seconds 100 - 1)
        \<lparr>full_name = ascii ''Ion Popescu'', phone = ascii ''0712345678'', email = None,
         service = ascii ''tuns'', date = ascii ''2030-01-01'', time = ascii ''14:30'',
         message = None, captcha_a = 2, captcha_b = 2, captcha_result = 4\<rparr> = Inr ()
   \<and> extra_validations \<lparr>strptime = \<lambda>s f. Some (seconds 100), email_str = Some, str_lower = id\<rparr>
        (seconds 100 - 1)
        \<lparr>full_name = ascii ''Ion Popescu'', phone = ascii ''0712345678'', email = None,
         service = ascii ''tuns'', date = ascii ''2030-01-01'', time = ascii ''14:30'',
         message = None, captcha_a = 2, captcha_b = 2, captcha_result = 4\<rparr> = Inr ()"
proof -
  let ?lib = "\<lparr>strptime = \<lambda>s f. Some (seconds 100), email_str = Some, str_lower = id\<rparr>"
  let ?p = "\<lparr>full_name = ascii ''Ion Popescu'', phone = ascii ''0712345678'', email = None,
       service = ascii ''tuns'', date = ascii ''2030-01-01'', time = ascii ''14:30'',
       message = None, captcha_a = 2, captcha_b = 2, captcha_result = 4\<rparr>"
  have h: "combined_datetime ?lib ?p = Some (seconds 100) \<and> (2::int) + 2 = 4"
    by (simp add: combined_datetime_def)
  have c: "captcha_a ?p + captcha_b ?p = captcha_result ?p" by simp
  show ?thesis
    using h c future_check_strict [of ?lib ?p "seconds 100" "seconds 100"]
    by blast
qed

text \<open>
  Claim C9. \<open>validate_captcha\<close> passes exactly when \<open>captcha_a + captcha_b\<close>, as
  integers, equals \<open>captcha_result\<close>, and fails with \<open>CaptchaFailed\<close> exactly when it does
  not: (2, 3, 5) passes and (2, 3, 6) fails.
\<close>

theorem captcha_sum_exact:
  "(validate_captcha p = Inr () \<longleftrightarrow> captcha_a p + captcha_b p = captcha_result p)
   \<and> (validate_captcha p = Inl CaptchaFailed \<longleftrightarrow> captcha_a p + captcha_b p \<noteq> captcha_result p)
   \<and> validate_captcha (p\<lparr>captcha_a := 2, captcha_b := 3, captcha_result := 5\<rparr>) = Inr ()
   \<and> validate_captcha (p\<lparr>captcha_a := 2, captcha_b := 3, captcha_result := 6\<rparr>) = Inl CaptchaFailed"
  by (simp add: validate_captcha_def)

theorem captcha_sum_exact_witness:
  "validate_captcha \<lparr>full_name = ascii ''Ion Popescu'', phone = ascii ''0712345678'', email = None,
       service = ascii ''tuns'', date = ascii ''2030-01-01'', time = ascii ''14:30'',
       message = None, captcha_a = 2, captcha_b = 3, captcha_result = 5\<rparr> = Inr ()
   \<and> validate_captcha \<lparr>full_name = ascii ''Ion Popescu'', phone = ascii ''0712345678'', email = None,
       service = ascii ''tuns'', date = ascii ''2030-01-01'', time = ascii ''14:30'',
       message = None, captcha_a = 2, captcha_b = 3, captcha_result = 6\<rparr> = Inl CaptchaFailed"
  using captcha_sum_exact [of "\<lparr>full_name = ascii ''Ion Popescu'', phone = ascii ''0712345678'',
       email = None, service = ascii ''tuns'', date = ascii ''2030-01-01'', time = ascii ''14:30'',
       message = None, captcha_a = 0, captcha_b = 0, captcha_result = 0\<rparr>"]
  by simp

section \<open>The full name\<close>

text \<open>
  Claim C5, as amended. The full-name check succeeds exactly when the length of the
  string as given, without any trimming, is at least 2, and fails with \<open>InvalidName\<close>
  otherwise; so every string whose trimmed length is at least 2 passes. In the validation
  of a body, \<open>InvalidName\<close> is reported exactly when the name is present and shorter
  than 2.
\<close>

theorem full_name_min_length:
  "(check_full_name v = Inr v \<longleftrightarrow> 2 \<le> length v)
   \<and> (check_full_name v = Inl InvalidName \<longleftrightarrow> length v < 2)
   \<and> (2 \<le> length (strip v) \<longrightarrow> check_full_name v = Inr v)
   \<and> (InvalidName \<in> set (field_errors lib raw) \<longleftrightarrow>
        (\<exists>v. raw_full_name raw = Some v \<and> length v < 2))"
proof -
  have "2 \<le> length (strip v) \<longrightarrow> 2 \<le> length v"
    using length_strip_le [of v] by linarith
  then show ?thesis
    using invalid_name_reported [of lib raw] by (auto simp: check_full_name_def)
qed

theorem full_name_min_length_witness:
  "2 \<le> length (strip (ascii '' Ion Popescu ''))
   \<and> check_full_name (ascii '' Ion Popescu '') = Inr (ascii '' Ion Popescu '')
   \<and> check_full_name (ascii ''a'') = Inl InvalidName"
proof -
  have "2 \<le> length (strip (ascii '' Ion Popescu '')) \<and> length (ascii ''a'') < 2"
    by (simp add: string_eval)
  then show ?thesis
    using full_name_min_length [of "ascii '' Ion Popescu ''"] full_name_min_length [of "ascii ''a''"]
    by blast
qed

text \<open>
  The claim as it was stated fails for one letter between two spaces: its trimmed length
  is 1, and the check passes, since the value as given has length 3.
\<close>

theorem full_name_untrimmed_counterexample:
  "check_full_name (ascii '' a '') = Inr (ascii '' a '')
   \<and> length (strip (ascii '' a '')) = 1"
  by (simp add: check_full_name_def string_eval)

section \<open>The order of the checks\<close>















end
